theory Spec2Isabelle
  imports Complex_Main "HOL-Library.Sublist"
begin

section \<open>The Fibonacci printer of \<^verbatim>\<open>test-code.py\<close>\<close>

text \<open>
  The source is one function and its entry point:
  \<^verbatim>\<open>
  def fibonacci(n):
      a, b = 0, 1
      while a < n:
          print(a, end=' ')
          a, b = b, a + b
      print()

  if __name__ == "__main__":
      fibonacci(100)
  \<close>
  The variables \<open>a\<close> and \<open>b\<close> are Python integers (unbounded, type \<open>int\<close> here). The
  bound \<open>n\<close> is a finite Python number: Python compares an integer with a float by
  value, exactly, so the test \<open>a < n\<close> is the comparison of the integer \<open>a\<close> with the
  real number that \<open>n\<close> denotes, and the bound has type \<open>real\<close>. The two infinities and
  NaN are not values of this type: every statement below is about finite bounds.
\<close>

subsection \<open>Decimal rendering and its limit\<close>

text \<open>
  \<open>print(a, end=' ')\<close> writes \<open>str(a)\<close> and then the \<open>end\<close> string. For an integer,
  \<open>str\<close> is the decimal rendering without leading zeros, with a minus sign for a negative
  number.
\<close>

datatype error = ValueError

definition digit_char :: "nat \<Rightarrow> char" where
  "digit_char d = ''0123456789'' ! d"

fun str_nat :: "nat \<Rightarrow> string" where
  "str_nat m = (if m < 10 then [digit_char m] else str_nat (m div 10) @ [digit_char (m mod 10)])"

declare str_nat.simps [simp del]

definition dec_int :: "int \<Rightarrow> string" where
  "dec_int i = (if i < 0 then CHR ''-'' # str_nat (nat (- i)) else str_nat (nat i))"

text \<open>The number of decimal digits of an integer, the sign not counted.\<close>

definition num_digits :: "int \<Rightarrow> nat" where
  "num_digits i = length (str_nat (nat \<bar>i\<bar>))"

text \<open>
  CPython converts an integer to decimal text only up to a limit on the number of its
  digits, \<open>sys.get_int_max_str_digits()\<close>: 4300 unless the interpreter is configured
  otherwise, and 0 when the limit is switched off. \<open>str\<close> of an integer with more digits
  than a positive limit raises \<open>ValueError\<close>. CPython accepts 0 or a value of at least
  640 as the limit. The limit is a setting of the interpreter, not a part of the source,
  so it is the parameter \<open>max_str_digits\<close> of everything that prints.
\<close>

definition str_int :: "nat \<Rightarrow> int \<Rightarrow> error + string" where
  "str_int max_str_digits i =
     (if 0 < max_str_digits \<and> max_str_digits < num_digits i then Inl ValueError
      else Inr (dec_int i))"

subsection \<open>The state of a call\<close>

text \<open>
  A call of \<open>fibonacci\<close> has the two local variables and one effect, the text appended to
  standard output. \<open>stdout\<close> is everything written to standard output so far.
  \<open>emitted\<close> is a history variable: the values the loop has printed, in order. The
  source has no such variable; it is recorded so that "the terms emitted" can be stated
  without parsing the output text.
\<close>

record state =
  var_a :: int
  var_b :: int
  emitted :: "int list"
  stdout :: string

text \<open>\<open>a, b = 0, 1\<close>, entered with \<open>out0\<close> on standard output.\<close>

definition init_state :: "string \<Rightarrow> state" where
  "init_state out0 = \<lparr>var_a = 0, var_b = 1, emitted = [], stdout = out0\<rparr>"

text \<open>
  The loop body: \<open>print(a, end=' ')\<close> and then the simultaneous assignment
  \<open>a, b = b, a + b\<close>, whose right-hand side is evaluated with the old \<open>a\<close> and \<open>b\<close>.
  \<open>print\<close> converts its argument before it writes anything: when the conversion
  raises, nothing is written and the assignment is not reached.
\<close>

definition loop_body :: "nat \<Rightarrow> state \<Rightarrow> error + state" where
  "loop_body max_str_digits s =
     (case str_int max_str_digits (var_a s) of
        Inl e \<Rightarrow> Inl e
      | Inr txt \<Rightarrow>
          Inr \<lparr>var_a = var_b s, var_b = var_a s + var_b s,
               emitted = emitted s @ [var_a s], stdout = stdout s @ txt @ '' ''\<rparr>)"

text \<open>
  How a run ends: it returns, or an error propagates out of it. Either way the state
  at that moment is kept, since what was written to standard output stays written.
\<close>

datatype outcome = Returned state | Raised error state

fun final :: "outcome \<Rightarrow> state" where
  "final (Returned s) = s"
| "final (Raised e s) = s"

fun returned :: "outcome \<Rightarrow> bool" where
  "returned (Returned s) = True"
| "returned (Raised e s) = False"

text \<open>
  \<open>while a < n\<close>. From an arbitrary state the loop need not end (from \<open>a = b = 0\<close> with
  the limit off it never does), so the loop is a partial function: \<open>None\<close> is "does not
  end".
\<close>

partial_function (option) fib_loop :: "nat \<Rightarrow> real \<Rightarrow> state \<Rightarrow> outcome option" where
  "fib_loop max_str_digits n s =
     (if real_of_int (var_a s) < n then
        (case loop_body max_str_digits s of
           Inl e \<Rightarrow> Some (Raised e s)
         | Inr s' \<Rightarrow> fib_loop max_str_digits n s')
      else Some (Returned s))"

declare fib_loop.simps [code]

text \<open>
  The whole function: initialise, run the loop, then \<open>print()\<close>, which writes a newline.
  An error raised in the loop leaves the function before the final \<open>print()\<close>.
\<close>

definition fibonacci :: "nat \<Rightarrow> real \<Rightarrow> string \<Rightarrow> outcome option" where
  "fibonacci max_str_digits n out0 =
     (case fib_loop max_str_digits n (init_state out0) of
        None \<Rightarrow> None
      | Some (Raised e s) \<Rightarrow> Some (Raised e s)
      | Some (Returned s) \<Rightarrow> Some (Returned (s\<lparr>stdout := stdout s @ ''\<newline>''\<rparr>)))"

text \<open>The entry point: \<open>fibonacci(100)\<close> on an empty standard output.\<close>

definition main :: "nat \<Rightarrow> outcome option" where
  "main max_str_digits = fibonacci max_str_digits 100 []"

text \<open>
  Two calls with the same bound, one after the other, the second made whatever the
  outcome of the first (a caller that catches the error): the second call starts with
  what the first one left on standard output. The result is the outcome of each call.
\<close>

definition fibonacci_twice :: "nat \<Rightarrow> real \<Rightarrow> string \<Rightarrow> (outcome \<times> outcome) option" where
  "fibonacci_twice max_str_digits n out0 =
     (case fibonacci max_str_digits n out0 of
        None \<Rightarrow> None
      | Some r1 \<Rightarrow>
          (case fibonacci max_str_digits n (stdout (final r1)) of
             None \<Rightarrow> None
           | Some r2 \<Rightarrow> Some (r1, r2)))"

text \<open>
  The states in which the loop condition is evaluated during \<open>fibonacci(n)\<close>: the initial
  one, and the one after each execution of the body that the condition allowed and that
  did not raise.
\<close>

inductive at_loop_head :: "nat \<Rightarrow> real \<Rightarrow> string \<Rightarrow> state \<Rightarrow> bool"
  for max_str_digits :: nat and n :: real and out0 :: string where
  enter: "at_loop_head max_str_digits n out0 (init_state out0)"
| iterate: "at_loop_head max_str_digits n out0 s \<Longrightarrow> real_of_int (var_a s) < n \<Longrightarrow>
     loop_body max_str_digits s = Inr s' \<Longrightarrow> at_loop_head max_str_digits n out0 s'"

subsection \<open>The specification's notions\<close>

text \<open>
  These definitions follow the words of the specification, not the code; the code is
  compared with them.

  The Fibonacci sequence \<open>a\<^sub>0 = 0, a\<^sub>1 = 1, a\<^sub>2 = 1, a\<^sub>3 = 2, \<dots>\<close> under the recurrence
  "next = current + previous".
\<close>

fun fib_seq :: "nat \<Rightarrow> int" where
  "fib_seq (Suc (Suc k)) = fib_seq (Suc k) + fib_seq k"
| "fib_seq (Suc 0) = 1"
| "fib_seq 0 = 0"

text \<open>
  "Consecutive values are joined by a single space character": the separator stands
  strictly between the items, as Python's \<open>' '.join\<close> puts it.
\<close>

fun space_join :: "string list \<Rightarrow> string" where
  "space_join [] = []"
| "space_join [x] = x"
| "space_join (x # y # zs) = x @ '' '' @ space_join (y # zs)"

text \<open>"The value last emitted (or the initial 0 before any emission)".\<close>

definition last_emitted :: "state \<Rightarrow> int" where
  "last_emitted s = (if emitted s = [] then 0 else last (emitted s))"

text \<open>
  The term before the current one under the recurrence: the value last emitted, and
  before any emission the implicit predecessor of the initial 0, which is the value
  needed to produce 1.
\<close>

definition previous_term :: "state \<Rightarrow> int" where
  "previous_term s = (if emitted s = [] then 1 else last (emitted s))"

subsection \<open>The invariant of the accumulator pair\<close>

text \<open>
  What the code keeps true of \<open>a\<close> and \<open>b\<close> whenever the loop condition is evaluated:
  \<open>a\<close> is the term of the sequence whose index is the number of terms emitted so far,
  that is the term to be emitted next; \<open>b\<close> is the term after it; and \<open>b\<close> is the sum of
  \<open>a\<close> and the term before \<open>a\<close>.
\<close>

definition accumulator_inv :: "state \<Rightarrow> bool" where
  "accumulator_inv s \<longleftrightarrow>
     var_a s = fib_seq (length (emitted s)) \<and>
     var_b s = fib_seq (Suc (length (emitted s))) \<and>
     var_b s = var_a s + previous_term s"

subsection \<open>Notions of the proofs\<close>

text \<open>A term that \<open>str\<close> converts under the limit \<open>lmt\<close>.\<close>

definition within_limit :: "nat \<Rightarrow> int \<Rightarrow> bool" where
  "within_limit lmt t \<longleftrightarrow> \<not> (0 < lmt \<and> lmt < num_digits t)"

text \<open>The state after \<open>k\<close> executions of the body from the initial state.\<close>

definition state_after :: "nat \<Rightarrow> string \<Rightarrow> state" where
  "state_after k out0 =
     \<lparr>var_a = fib_seq k, var_b = fib_seq (Suc k), emitted = map fib_seq [0..<k],
      stdout = out0 @ concat (map (\<lambda>t. dec_int t @ '' '') (map fib_seq [0..<k]))\<rparr>"

text \<open>
  The index at which a run ends: every earlier term is below the bound and within the
  limit, and the term of this index is not both.
\<close>

definition ends_at :: "nat \<Rightarrow> real \<Rightarrow> nat \<Rightarrow> bool" where
  "ends_at lmt n k \<longleftrightarrow>
     (\<forall>i<k. real_of_int (fib_seq i) < n \<and> within_limit lmt (fib_seq i)) \<and>
     \<not> (real_of_int (fib_seq k) < n \<and> within_limit lmt (fib_seq k))"

section \<open>The digit limit as a bound on the value\<close>

text \<open>
  A number has at most \<open>d\<close> digits exactly when it is below \<open>10 ^ d\<close>.
\<close>

lemma str_nat_length_pos: "0 < length (str_nat m)"
  by (subst str_nat.simps) simp

lemma str_nat_length_le: "0 < d \<Longrightarrow> length (str_nat m) \<le> d \<longleftrightarrow> m < 10 ^ d"
proof (induction m arbitrary: d rule: str_nat.induct)
  case (1 m)
  show ?case
  proof (cases "m < 10")
    case True
    have "(10::nat) ^ 1 \<le> 10 ^ d" using 1(2) by (intro power_increasing) simp_all
    with True have "m < 10 ^ d" by simp
    moreover have "length (str_nat m) = 1" using True by (subst str_nat.simps) simp
    ultimately show ?thesis using 1(2) by simp
  next
    case False
    then have len: "length (str_nat m) = Suc (length (str_nat (m div 10)))"
      by (subst str_nat.simps) simp
    show ?thesis
    proof (cases d)
      case 0
      with 1(2) show ?thesis by simp
    next
      case (Suc e)
      show ?thesis
      proof (cases "e = 0")
        case True
        with Suc False len str_nat_length_pos [of "m div 10"] show ?thesis by simp
      next
        case e: False
        then have "length (str_nat (m div 10)) \<le> e \<longleftrightarrow> m div 10 < 10 ^ e"
          using 1(1) [OF False, of e] by simp
        also have "\<dots> \<longleftrightarrow> m < 10 ^ Suc e"
          by (simp add: div_less_iff_less_mult mult.commute)
        finally show ?thesis using len Suc by simp
      qed
    qed
  qed
qed

lemma within_limit_iff: "within_limit lmt t \<longleftrightarrow> lmt = 0 \<or> \<bar>t\<bar> < 10 ^ lmt"
proof (cases "lmt = 0")
  case True
  then show ?thesis by (simp add: within_limit_def)
next
  case False
  then have "num_digits t \<le> lmt \<longleftrightarrow> nat \<bar>t\<bar> < 10 ^ lmt"
    unfolding num_digits_def by (intro str_nat_length_le) simp
  also have "\<dots> \<longleftrightarrow> \<bar>t\<bar> < 10 ^ lmt"
    by (simp add: nat_less_iff)
  finally show ?thesis using False by (auto simp: within_limit_def)
qed

lemma str_int_within: "within_limit lmt t \<Longrightarrow> str_int lmt t = Inr (dec_int t)"
  by (simp add: str_int_def within_limit_def)

lemma str_int_beyond: "\<not> within_limit lmt t \<Longrightarrow> str_int lmt t = Inl ValueError"
  by (simp add: str_int_def within_limit_def)

lemma within_limit_digit: "\<bar>t\<bar> < 10 \<Longrightarrow> within_limit lmt t"
proof (cases "lmt = 0")
  case True
  then show ?thesis by (simp add: within_limit_iff)
next
  case False
  assume "\<bar>t\<bar> < 10"
  moreover from False have "(10::int) ^ 1 \<le> 10 ^ lmt" by (intro power_increasing) simp_all
  ultimately show ?thesis by (simp add: within_limit_iff)
qed

lemma within_limit_small:
  assumes "lmt = 0 \<or> 2 \<le> lmt" and "\<bar>t\<bar> < 100"
  shows "within_limit lmt t"
proof (cases "lmt = 0")
  case True
  then show ?thesis by (simp add: within_limit_iff)
next
  case False
  with assms(1) have "(10::int) ^ 2 \<le> 10 ^ lmt" by (intro power_increasing) simp_all
  with assms(2) show ?thesis by (simp add: within_limit_iff)
qed

section \<open>The loop, unrolled\<close>

lemma fib_loop_stop:
  "\<not> real_of_int (var_a s) < n \<Longrightarrow> fib_loop lmt n s = Some (Returned s)"
  by (subst fib_loop.simps) simp

lemma fib_loop_raise:
  "real_of_int (var_a s) < n \<Longrightarrow> loop_body lmt s = Inl e \<Longrightarrow>
     fib_loop lmt n s = Some (Raised e s)"
  by (subst fib_loop.simps) simp

lemma fib_loop_step:
  "real_of_int (var_a s) < n \<Longrightarrow> loop_body lmt s = Inr s' \<Longrightarrow>
     fib_loop lmt n s = fib_loop lmt n s'"
  by (subst fib_loop.simps) simp

lemma state_after_0: "state_after 0 out0 = init_state out0"
  by (simp add: state_after_def init_state_def)

lemma loop_body_state_after:
  "within_limit lmt (fib_seq k) \<Longrightarrow>
     loop_body lmt (state_after k out0) = Inr (state_after (Suc k) out0)"
  by (simp add: loop_body_def state_after_def str_int_within)

lemma loop_body_state_after_beyond:
  "\<not> within_limit lmt (fib_seq k) \<Longrightarrow> loop_body lmt (state_after k out0) = Inl ValueError"
  by (simp add: loop_body_def state_after_def str_int_beyond)

lemma fib_loop_unroll:
  "(\<forall>i<k. real_of_int (fib_seq i) < n \<and> within_limit lmt (fib_seq i)) \<Longrightarrow>
     fib_loop lmt n (init_state out0) = fib_loop lmt n (state_after k out0)"
proof (induction k)
  case 0
  show ?case by (simp add: state_after_0)
next
  case (Suc k)
  from Suc.prems have "fib_loop lmt n (init_state out0) = fib_loop lmt n (state_after k out0)"
    by (intro Suc.IH) simp
  also have "\<dots> = fib_loop lmt n (state_after (Suc k) out0)"
  proof (rule fib_loop_step)
    from Suc.prems show "real_of_int (var_a (state_after k out0)) < n"
      by (simp add: state_after_def)
    from Suc.prems show "loop_body lmt (state_after k out0) = Inr (state_after (Suc k) out0)"
      by (intro loop_body_state_after) simp
  qed
  finally show ?case .
qed

lemma fib_loop_returns_at:
  assumes "\<forall>i<k. real_of_int (fib_seq i) < n \<and> within_limit lmt (fib_seq i)"
    and "\<not> real_of_int (fib_seq k) < n"
  shows "fib_loop lmt n (init_state out0) = Some (Returned (state_after k out0))"
proof -
  have "fib_loop lmt n (state_after k out0) = Some (Returned (state_after k out0))"
    using assms(2) by (intro fib_loop_stop) (simp add: state_after_def)
  with fib_loop_unroll [OF assms(1)] show ?thesis by simp
qed

lemma fib_loop_raises_at:
  assumes "\<forall>i<k. real_of_int (fib_seq i) < n \<and> within_limit lmt (fib_seq i)"
    and "real_of_int (fib_seq k) < n" and "\<not> within_limit lmt (fib_seq k)"
  shows "fib_loop lmt n (init_state out0) = Some (Raised ValueError (state_after k out0))"
proof -
  have "fib_loop lmt n (state_after k out0) = Some (Raised ValueError (state_after k out0))"
  proof (rule fib_loop_raise)
    from assms(2) show "real_of_int (var_a (state_after k out0)) < n"
      by (simp add: state_after_def)
    from assms(3) show "loop_body lmt (state_after k out0) = Inl ValueError"
      by (rule loop_body_state_after_beyond)
  qed
  with fib_loop_unroll [OF assms(1)] show ?thesis by simp
qed

section \<open>Growth of the sequence\<close>

lemma fib_seq_nonneg: "0 \<le> fib_seq k"
  by (induction k rule: fib_seq.induct) simp_all

lemma fib_seq_Suc_pos: "1 \<le> fib_seq (Suc k)"
proof (cases k)
  case 0
  then show ?thesis by simp
next
  case (Suc j)
  have "1 \<le> fib_seq (Suc j)"
  proof (induction j)
    case 0
    show ?case by simp
  next
    case (Suc i)
    with fib_seq_nonneg [of i] show ?case by simp
  qed
  with fib_seq_nonneg [of j] Suc show ?thesis by simp
qed

lemma fib_seq_le_Suc: "fib_seq k \<le> fib_seq (Suc k)"
  using fib_seq_nonneg [of "k - 1"] by (cases k) simp_all

lemma fib_seq_mono: "i \<le> j \<Longrightarrow> fib_seq i \<le> fib_seq j"
  by (rule lift_Suc_mono_le) (rule fib_seq_le_Suc)

lemma fib_seq_lower: "int k \<le> fib_seq (Suc k)"
proof (induction k rule: fib_seq.induct)
  case (1 k)
  with fib_seq_Suc_pos [of k] show ?case by simp
qed simp_all

lemma fib_seq_Suc_le_double: "fib_seq (Suc k) \<le> 2 * fib_seq k + 1"
proof (cases k)
  case 0
  then show ?thesis by simp
next
  case (Suc j)
  with fib_seq_le_Suc [of j] show ?thesis by simp
qed

lemma fib_seq_reaches: "n \<le> real_of_int (fib_seq (Suc (nat \<lceil>n\<rceil>)))"
proof -
  have "n \<le> real_of_int \<lceil>n\<rceil>" by (rule le_of_int_ceiling)
  also have "\<lceil>n\<rceil> \<le> int (nat \<lceil>n\<rceil>)" by simp
  also have "\<dots> \<le> fib_seq (Suc (nat \<lceil>n\<rceil>))" by (rule fib_seq_lower)
  finally show ?thesis by simp
qed

lemma within_limit_mono:
  assumes "within_limit lmt (fib_seq j)" and "i \<le> j"
  shows "within_limit lmt (fib_seq i)"
proof -
  from assms(2) have "fib_seq i \<le> fib_seq j" by (rule fib_seq_mono)
  with assms(1) fib_seq_nonneg [of i] fib_seq_nonneg [of j] show ?thesis
    by (auto simp: within_limit_iff)
qed

lemma within_limit_real:
  "within_limit lmt (fib_seq i) \<longleftrightarrow> lmt = 0 \<or> real_of_int (fib_seq i) < 10 ^ lmt"
proof -
  have "real_of_int (fib_seq i) < 10 ^ lmt \<longleftrightarrow> fib_seq i < 10 ^ lmt"
    by (metis of_int_less_iff of_int_numeral of_int_power)
  with fib_seq_nonneg [of i] show ?thesis by (simp add: within_limit_iff)
qed

section \<open>Where a run ends and what it leaves\<close>

lemma ends_at_exists: "\<exists>k. k \<le> Suc (nat \<lceil>n\<rceil>) \<and> ends_at lmt n k"
proof -
  define P where "P k \<longleftrightarrow> \<not> (real_of_int (fib_seq k) < n \<and> within_limit lmt (fib_seq k))" for k
  define k where "k = (LEAST k. P k)"
  have ex: "P (Suc (nat \<lceil>n\<rceil>))"
    unfolding P_def using fib_seq_reaches [of n] by simp
  then have Pk: "P k" unfolding k_def by (rule LeastI)
  have le: "k \<le> Suc (nat \<lceil>n\<rceil>)" unfolding k_def using ex by (rule Least_le)
  have below: "\<not> P i" if "i < k" for i
    using that unfolding k_def by (rule not_less_Least)
  from Pk below have "ends_at lmt n k" unfolding ends_at_def P_def by blast
  with le show ?thesis by blast
qed

lemma ends_at_below_iff:
  assumes "ends_at lmt n k" and "\<not> real_of_int (fib_seq k) < n"
  shows "real_of_int (fib_seq i) < n \<longleftrightarrow> i < k"
proof (cases "i < k")
  case True
  with assms(1) show ?thesis by (simp add: ends_at_def)
next
  case False
  then have "fib_seq k \<le> fib_seq i" by (intro fib_seq_mono) simp
  with assms(2) False show ?thesis by auto
qed

lemma ends_at_within_iff:
  assumes "ends_at lmt n k" and "\<not> within_limit lmt (fib_seq k)"
  shows "within_limit lmt (fib_seq i) \<longleftrightarrow> i < k"
proof (cases "i < k")
  case True
  with assms(1) show ?thesis by (simp add: ends_at_def)
next
  case False
  then have "k \<le> i" by simp
  with assms(2) within_limit_mono [of lmt i k] False show ?thesis by blast
qed

lemma ends_at_mono:
  assumes "n1 \<le> n2" and k1: "ends_at lmt n1 k1" and k2: "ends_at lmt n2 k2"
  shows "k1 \<le> k2"
proof (rule ccontr)
  assume "\<not> k1 \<le> k2"
  then have "k2 < k1" by simp
  with k1 have "real_of_int (fib_seq k2) < n1" and "within_limit lmt (fib_seq k2)"
    by (simp_all add: ends_at_def)
  with assms(1) have "real_of_int (fib_seq k2) < n2 \<and> within_limit lmt (fib_seq k2)"
    by simp
  with k2 show False by (simp add: ends_at_def)
qed

lemma fib_loop_outcome:
  assumes "ends_at lmt n k"
  shows "fib_loop lmt n (init_state out0) =
     Some (if real_of_int (fib_seq k) < n then Raised ValueError (state_after k out0)
           else Returned (state_after k out0))"
proof (cases "real_of_int (fib_seq k) < n")
  case True
  with assms have "\<not> within_limit lmt (fib_seq k)" by (simp add: ends_at_def)
  with assms True show ?thesis
    by (simp add: ends_at_def fib_loop_raises_at)
next
  case False
  with assms show ?thesis
    by (simp add: ends_at_def fib_loop_returns_at)
qed

lemma fibonacci_outcome:
  assumes "ends_at lmt n k"
  shows "fibonacci lmt n out0 =
     Some (if real_of_int (fib_seq k) < n then Raised ValueError (state_after k out0)
           else Returned ((state_after k out0)\<lparr>stdout := stdout (state_after k out0) @ ''\<newline>''\<rparr>))"
  by (simp add: fibonacci_def fib_loop_outcome [OF assms])

lemma ends_at_returns:
  assumes "ends_at lmt n k" and "lmt = 0 \<or> n \<le> 10 ^ lmt"
  shows "\<not> real_of_int (fib_seq k) < n"
proof
  assume below: "real_of_int (fib_seq k) < n"
  with assms(1) have "\<not> within_limit lmt (fib_seq k)" by (simp add: ends_at_def)
  then have "lmt \<noteq> 0" and "10 ^ lmt \<le> fib_seq k"
    using fib_seq_nonneg [of k] by (auto simp: within_limit_iff)
  then have "(10::real) ^ lmt \<le> real_of_int (fib_seq k)"
    by (metis of_int_le_iff of_int_numeral of_int_power)
  with below assms(2) \<open>lmt \<noteq> 0\<close> show False by simp
qed

lemma ends_at_raises:
  assumes k: "ends_at lmt n k" and pos: "0 < lmt" and big: "2 * 10 ^ lmt \<le> n"
  shows "real_of_int (fib_seq k) < n"
proof (rule ccontr)
  assume stop: "\<not> real_of_int (fib_seq k) < n"
  have "(0::real) < 10 ^ lmt" by simp
  with big have "0 < n" by linarith
  with stop have "k \<noteq> 0" by (cases k) auto
  then obtain j where j: "k = Suc j" by (cases k) auto
  with k have "within_limit lmt (fib_seq j)" by (simp add: ends_at_def)
  with pos have "real_of_int (fib_seq j) < 10 ^ lmt" by (simp add: within_limit_real)
  moreover have "real_of_int (fib_seq (Suc j)) \<le> 2 * real_of_int (fib_seq j) + 1"
    using fib_seq_Suc_le_double [of j] by linarith
  moreover have "real_of_int (fib_seq j) + 1 \<le> 10 ^ lmt"
  proof -
    from \<open>within_limit lmt (fib_seq j)\<close> pos fib_seq_nonneg [of j]
    have "fib_seq j + 1 \<le> 10 ^ lmt" by (simp add: within_limit_iff)
    then have "real_of_int (fib_seq j + 1) \<le> real_of_int (10 ^ lmt)"
      by (simp only: of_int_le_iff)
    then show ?thesis by simp
  qed
  ultimately have "real_of_int (fib_seq (Suc j)) < 2 * 10 ^ lmt" by linarith
  with big stop j show False by simp
qed

text \<open>
  The outcome of a call in one statement.
\<close>

lemma fibonacci_run:
  "\<exists>k r. k \<le> Suc (nat \<lceil>n\<rceil>) \<and> ends_at lmt n k \<and> fibonacci lmt n out0 = Some r \<and>
     returned r = (\<not> real_of_int (fib_seq k) < n) \<and>
     (returned r \<or> r = Raised ValueError (final r)) \<and>
     var_a (final r) = fib_seq k \<and> var_b (final r) = fib_seq (Suc k) \<and>
     emitted (final r) = map fib_seq [0..<k] \<and>
     stdout (final r) = out0 @ concat (map (\<lambda>t. dec_int t @ '' '') (map fib_seq [0..<k]))
        @ (if returned r then ''\<newline>'' else [])"
proof -
  from ends_at_exists [of n lmt] obtain k
    where le: "k \<le> Suc (nat \<lceil>n\<rceil>)" and k: "ends_at lmt n k" by blast
  show ?thesis
  proof (cases "real_of_int (fib_seq k) < n")
    case True
    then have "fibonacci lmt n out0 = Some (Raised ValueError (state_after k out0))"
      by (simp add: fibonacci_outcome [OF k])
    with le k True show ?thesis
      by (intro exI [of _ k] exI [of _ "Raised ValueError (state_after k out0)"])
        (simp add: state_after_def)
  next
    case False
    then have "fibonacci lmt n out0 = Some (Returned
        ((state_after k out0)\<lparr>stdout := stdout (state_after k out0) @ ''\<newline>''\<rparr>))"
      by (simp add: fibonacci_outcome [OF k])
    with le k False show ?thesis
      by (intro exI [of _ k] exI [of _ "Returned
        ((state_after k out0)\<lparr>stdout := stdout (state_after k out0) @ ''\<newline>''\<rparr>)"])
        (simp add: state_after_def)
  qed
qed

text \<open>
  A run with the limit switched off returns; under a limit that no emitted term
  exceeds, the run is the same, whatever standard output held before.
\<close>

lemma fibonacci_any_limit:
  assumes r0: "fibonacci 0 n [] = Some (Returned s0)"
    and w: "\<forall>t\<in>set (emitted s0). within_limit lmt t"
  shows "fibonacci lmt n out0 = Some (Returned (s0\<lparr>stdout := out0 @ stdout s0\<rparr>))"
proof -
  from ends_at_exists [of n 0] obtain k where k0: "ends_at 0 n k" by blast
  have stop: "\<not> real_of_int (fib_seq k) < n"
    by (rule ends_at_returns [OF k0]) simp
  with r0 have s0: "s0 = (state_after k [])\<lparr>stdout := stdout (state_after k []) @ ''\<newline>''\<rparr>"
    by (simp add: fibonacci_outcome [OF k0])
  then have "emitted s0 = map fib_seq [0..<k]" by (simp add: state_after_def)
  with w have "\<forall>i<k. within_limit lmt (fib_seq i)" by simp
  with k0 stop have "ends_at lmt n k" by (simp add: ends_at_def)
  from fibonacci_outcome [OF this, of out0] stop show ?thesis
    by (simp add: s0 state_after_def)
qed

text \<open>
  Beyond the limit: with a bound of at least twice \<open>10 ^ lmt\<close> the call raises, at the
  term whose index is the number of terms emitted, which is below the bound.
\<close>

lemma fibonacci_beyond_limit_index:
  assumes pos: "0 < lmt" and big: "2 * 10 ^ lmt \<le> n"
  shows "\<exists>s. fibonacci lmt n out0 = Some (Raised ValueError s) \<and>
     real_of_int (fib_seq (length (emitted s))) < n \<and>
     fib_seq (length (emitted s)) \<notin> set (emitted s)"
proof -
  from ends_at_exists [of n lmt] obtain k where k: "ends_at lmt n k" by blast
  from ends_at_raises [OF k pos big] have below: "real_of_int (fib_seq k) < n" .
  with k have beyond: "\<not> within_limit lmt (fib_seq k)" by (simp add: ends_at_def)
  have r: "fibonacci lmt n out0 = Some (Raised ValueError (state_after k out0))"
    using below by (simp add: fibonacci_outcome [OF k])
  have len: "length (emitted (state_after k out0)) = k"
    by (simp add: state_after_def)
  have "fib_seq k \<notin> set (map fib_seq [0..<k])"
  proof
    assume "fib_seq k \<in> set (map fib_seq [0..<k])"
    then obtain i where "i < k" and "fib_seq i = fib_seq k" by auto
    with k beyond show False by (auto simp: ends_at_def)
  qed
  then have "fib_seq k \<notin> set (emitted (state_after k out0))"
    by (simp add: state_after_def)
  with r below len show ?thesis by auto
qed

section \<open>Helper facts for the claims\<close>

text \<open>
  Runs evaluated from the code equations, at the default limit 4300 and with the limit
  switched off.
\<close>

lemma fibonacci_100_unlimited: "fibonacci 0 100 [] =
  Some (Returned \<lparr>var_a = 144, var_b = 233, emitted = [0, 1, 1, 2, 3, 5, 8, 13, 21, 34, 55, 89],
    stdout = ''0 1 1 2 3 5 8 13 21 34 55 89 \<newline>''\<rparr>)"
  by code_simp

lemma fibonacci_100_default: "fibonacci 4300 100 [] =
  Some (Returned \<lparr>var_a = 144, var_b = 233, emitted = [0, 1, 1, 2, 3, 5, 8, 13, 21, 34, 55, 89],
    stdout = ''0 1 1 2 3 5 8 13 21 34 55 89 \<newline>''\<rparr>)"
  by code_simp

lemma fibonacci_100_prompt: "fibonacci 4300 100 ''> '' =
  Some (Returned \<lparr>var_a = 144, var_b = 233, emitted = [0, 1, 1, 2, 3, 5, 8, 13, 21, 34, 55, 89],
    stdout = ''> 0 1 1 2 3 5 8 13 21 34 55 89 \<newline>''\<rparr>)"
  by code_simp


lemma fibonacci_1_unlimited: "fibonacci 0 1 [] =
  Some (Returned \<lparr>var_a = 1, var_b = 1, emitted = [0], stdout = ''0 \<newline>''\<rparr>)"
  by code_simp

lemma fibonacci_1_default: "fibonacci 4300 1 [] =
  Some (Returned \<lparr>var_a = 1, var_b = 1, emitted = [0], stdout = ''0 \<newline>''\<rparr>)"
  by code_simp

lemma fibonacci_2_default: "fibonacci 4300 2 [] =
  Some (Returned \<lparr>var_a = 2, var_b = 3, emitted = [0, 1, 1], stdout = ''0 1 1 \<newline>''\<rparr>)"
  by code_simp

lemma loop_body_init_default:
  "loop_body 4300 (init_state []) =
     Inr \<lparr>var_a = 1, var_b = 1, emitted = [0], stdout = ''0 ''\<rparr>"
  by code_simp

text \<open>
  Powers of ten, kept as powers.
\<close>

lemma two_le_power_ten: "0 < d \<Longrightarrow> (2::real) \<le> 10 ^ d"
proof -
  assume "0 < d"
  then have "(10::real) ^ 1 \<le> 10 ^ d" by (intro power_increasing) simp_all
  then show ?thesis by simp
qed

lemma hundred_le_power_ten: "2 \<le> d \<Longrightarrow> (100::real) \<le> 10 ^ d"
proof -
  assume "2 \<le> d"
  then have "(10::real) ^ 2 \<le> 10 ^ d" by (intro power_increasing) simp_all
  then show ?thesis by simp
qed

lemma double_power_ten_le: "d < e \<Longrightarrow> 2 * (10::real) ^ d \<le> 10 ^ e"
proof -
  assume "d < e"
  then obtain c where e: "e = d + c" and c: "0 < c"
    by (metis less_imp_add_positive)
  from c have "(2::real) \<le> 10 ^ c" by (rule two_le_power_ten)
  then have "2 * (10::real) ^ d \<le> 10 ^ c * 10 ^ d"
    by (intro mult_right_mono) simp_all
  then show ?thesis by (simp add: e power_add mult.commute)
qed

text \<open>
  A space after every item is the space-joined text and one more space.
\<close>

lemma concat_space_join:
  "concat (map (\<lambda>t. f t @ '' '') ts) =
     space_join (map f ts) @ (if ts = [] then [] else '' '')"
proof (induction ts)
  case Nil
  show ?case by simp
next
  case (Cons t ts)
  then show ?case by (cases ts) simp_all
qed

lemma fib_seq_prefix_recurrence:
  assumes "i < k"
  shows "map fib_seq [0..<k] ! i =
     (if i = 0 then 0 else (1 # map fib_seq [0..<k]) ! i + (1 # map fib_seq [0..<k]) ! (i - 1))"
proof (cases i)
  case 0
  with assms show ?thesis by simp
next
  case (Suc j)
  with assms show ?thesis by (cases j) simp_all
qed

lemma prefix_fib_seq: "k1 \<le> k2 \<Longrightarrow> prefix (map fib_seq [0..<k1]) (map fib_seq [0..<k2])"
proof -
  assume "k1 \<le> k2"
  then have "[0..<k2] = [0..<k1] @ [k1..<k2]"
    by (metis le_add_diff_inverse upt_add_eq_append zero_le)
  then show ?thesis by (simp add: prefix_def)
qed

lemma sorted_fib_seq: "sorted (map fib_seq [0..<k])"
  by (simp add: sorted_map sorted_wrt_iff_nth_less fib_seq_mono)

text \<open>
  The invariant.
\<close>

lemma loop_body_Inr:
  assumes "loop_body lmt s = Inr s'"
  shows "s' = \<lparr>var_a = var_b s, var_b = var_a s + var_b s,
               emitted = emitted s @ [var_a s],
               stdout = stdout s @ dec_int (var_a s) @ '' ''\<rparr>"
  using assms by (auto simp: loop_body_def str_int_def split: if_splits)

lemma accumulator_inv_init: "accumulator_inv (init_state out0)"
  by (simp add: accumulator_inv_def init_state_def previous_term_def)

lemma accumulator_inv_body:
  assumes "accumulator_inv s" and "loop_body lmt s = Inr s'"
  shows "accumulator_inv s'"
  using assms(1) unfolding loop_body_Inr [OF assms(2)]
  by (simp add: accumulator_inv_def previous_term_def)

lemma at_loop_head_inv: "at_loop_head lmt n out0 s \<Longrightarrow> accumulator_inv s"
proof (induction rule: at_loop_head.induct)
  case enter
  show ?case by (rule accumulator_inv_init)
next
  case (iterate s s')
  then show ?case by (intro accumulator_inv_body [of s lmt s'])
qed

section \<open>The claims\<close>

subsection \<open>C1: the format of the output\<close>

text \<open>
  C1, as the code has it. For every finite bound \<open>n\<close> and every digit limit the call
  ends, and what it has appended to standard output is the decimal rendering of each
  emitted term followed by one space, and then, when the call returns, a single
  newline. In terms of joining: the space-joined renderings of the emitted terms, then
  one more space when at least one term was emitted, then the newline when the call
  returns. A space stands after the last number as after every other. The call returns,
  and so writes the newline however many terms were emitted, whenever the limit is off
  or \<open>n \<le> 10 ^ lmt\<close>; a call that \<open>print\<close> leaves with \<open>ValueError\<close> writes no newline.
\<close>

theorem fibonacci_output_format:
  "\<exists>r. fibonacci lmt n out0 = Some r \<and>
     stdout (final r) = out0 @ concat (map (\<lambda>t. dec_int t @ '' '') (emitted (final r)))
        @ (if returned r then ''\<newline>'' else []) \<and>
     stdout (final r) = out0 @ space_join (map dec_int (emitted (final r)))
        @ (if emitted (final r) = [] then [] else '' '')
        @ (if returned r then ''\<newline>'' else []) \<and>
     (lmt = 0 \<or> n \<le> 10 ^ lmt \<longrightarrow> returned r)"
proof -
  from fibonacci_run [of n lmt out0] obtain k r where
    k: "ends_at lmt n k" and r: "fibonacci lmt n out0 = Some r" and
    ret: "returned r = (\<not> real_of_int (fib_seq k) < n)" and
    e: "emitted (final r) = map fib_seq [0..<k]" and
    out: "stdout (final r) = out0 @ concat (map (\<lambda>t. dec_int t @ '' '') (map fib_seq [0..<k]))
        @ (if returned r then ''\<newline>'' else [])"
    by blast
  from out e have 1: "stdout (final r) =
      out0 @ concat (map (\<lambda>t. dec_int t @ '' '') (emitted (final r)))
        @ (if returned r then ''\<newline>'' else [])"
    by simp
  have 2: "stdout (final r) = out0 @ space_join (map dec_int (emitted (final r)))
        @ (if emitted (final r) = [] then [] else '' '')
        @ (if returned r then ''\<newline>'' else [])"
    unfolding 1 concat_space_join [of dec_int] by simp
  have 3: "lmt = 0 \<or> n \<le> 10 ^ lmt \<longrightarrow> returned r"
    using ends_at_returns [OF k] ret by blast
  from r 1 2 3 show ?thesis by blast
qed

text \<open>
  At the default limit and the bound 2 the hypothesis holds and the call returns.
\<close>

theorem fibonacci_output_format_witness:
  "(2::real) \<le> 10 ^ 4300 \<and>
   fibonacci 4300 2 [] =
     Some (Returned \<lparr>var_a = 2, var_b = 3, emitted = [0, 1, 1], stdout = ''0 1 1 \<newline>''\<rparr>) \<and>
   returned (Returned \<lparr>var_a = 2, var_b = 3, emitted = [0, 1, 1], stdout = ''0 1 1 \<newline>''\<rparr>)"
proof -
  have h: "(2::real) \<le> 10 ^ 4300" by (rule two_le_power_ten) simp
  from fibonacci_output_format [of 4300 2 "[]"] obtain r where
    r: "fibonacci 4300 2 [] = Some r" and
    i: "4300 = (0::nat) \<or> (2::real) \<le> 10 ^ 4300 \<longrightarrow> returned r"
    by blast
  from i h have "returned r" by blast
  moreover from r have "r = Returned \<lparr>var_a = 2, var_b = 3, emitted = [0, 1, 1],
      stdout = ''0 1 1 \<newline>''\<rparr>"
    by (simp only: fibonacci_2_default option.inject)
  ultimately show ?thesis using h fibonacci_2_default by blast
qed

text \<open>
  C1 as it is stated fails: \<open>fibonacci(2)\<close> emits 0, 1, 1 and writes
  \<open>0 1 1\<close>, a space and the newline, which is not the space-joined renderings followed
  immediately by the newline.
\<close>

theorem fibonacci_separator_counterexample:
  "fibonacci 4300 2 [] =
     Some (Returned \<lparr>var_a = 2, var_b = 3, emitted = [0, 1, 1], stdout = ''0 1 1 \<newline>''\<rparr>) \<and>
   ''0 1 1 \<newline>'' \<noteq> space_join (map dec_int [0, 1, 1]) @ ''\<newline>''"
  by code_simp

subsection \<open>C2: the bound 100 and the entry point\<close>

text \<open>
  C2, as the code has it. With the digit limit off or at least 2 (every limit CPython
  accepts, the default 4300 among them), \<open>fibonacci(100)\<close> returns, emits the twelve terms
  0 to 89 and appends \<open>0 1 1 2 3 5 8 13 21 34 55 89\<close>, a space and a newline to standard
  output; the program run as a script writes exactly this text.
\<close>

theorem fibonacci_100_output:
  assumes "lmt = 0 \<or> 2 \<le> lmt"
  shows "fibonacci lmt 100 out0 =
     Some (Returned \<lparr>var_a = 144, var_b = 233,
       emitted = [0, 1, 1, 2, 3, 5, 8, 13, 21, 34, 55, 89],
       stdout = out0 @ ''0 1 1 2 3 5 8 13 21 34 55 89 \<newline>''\<rparr>) \<and>
   main lmt =
     Some (Returned \<lparr>var_a = 144, var_b = 233,
       emitted = [0, 1, 1, 2, 3, 5, 8, 13, 21, 34, 55, 89],
       stdout = ''0 1 1 2 3 5 8 13 21 34 55 89 \<newline>''\<rparr>)"
proof -
  have w: "\<forall>t\<in>set (emitted \<lparr>var_a = 144, var_b = 233,
      emitted = [0, 1, 1, 2, 3, 5, 8, 13, 21, 34, 55, 89],
      stdout = ''0 1 1 2 3 5 8 13 21 34 55 89 \<newline>''\<rparr>). within_limit lmt t"
    using assms by (auto intro: within_limit_small)
  from fibonacci_any_limit [OF fibonacci_100_unlimited w, of out0]
    fibonacci_any_limit [OF fibonacci_100_unlimited w, of "[]"]
  show ?thesis by (simp add: main_def)
qed

theorem fibonacci_100_output_witness:
  "((4300::nat) = 0 \<or> (2::nat) \<le> 4300) \<and>
   fibonacci 4300 100 ''> '' =
     Some (Returned \<lparr>var_a = 144, var_b = 233,
       emitted = [0, 1, 1, 2, 3, 5, 8, 13, 21, 34, 55, 89],
       stdout = ''> 0 1 1 2 3 5 8 13 21 34 55 89 \<newline>''\<rparr>) \<and>
   main 4300 =
     Some (Returned \<lparr>var_a = 144, var_b = 233,
       emitted = [0, 1, 1, 2, 3, 5, 8, 13, 21, 34, 55, 89],
       stdout = ''0 1 1 2 3 5 8 13 21 34 55 89 \<newline>''\<rparr>)"
proof -
  have h: "(4300::nat) = 0 \<or> (2::nat) \<le> 4300" by simp
  from fibonacci_100_output [OF h, of "''> ''"] h show ?thesis by simp
qed

text \<open>
  C2 as it is stated fails: neither the call nor the program writes the text that has
  the newline immediately after 89.
\<close>

theorem fibonacci_100_counterexample:
  "map_option (\<lambda>r. stdout (final r)) (fibonacci 4300 100 []) \<noteq>
     Some ''0 1 1 2 3 5 8 13 21 34 55 89\<newline>'' \<and>
   map_option (\<lambda>r. stdout (final r)) (main 4300) \<noteq>
     Some ''0 1 1 2 3 5 8 13 21 34 55 89\<newline>''"
  by (simp add: fibonacci_100_default main_def)

subsection \<open>C3: bounds that are not positive\<close>

text \<open>
  C3. For every bound \<open>n \<le> 0\<close>, under every digit limit, the call returns, emits no
  number and writes exactly one newline character: the loop body never runs, the
  emitted list is empty, and standard output grows by the newline alone.
\<close>

theorem fibonacci_nonpositive_bound:
  assumes "n \<le> 0"
  shows "fibonacci lmt n out0 =
     Some (Returned \<lparr>var_a = 0, var_b = 1, emitted = [], stdout = out0 @ ''\<newline>''\<rparr>)"
proof -
  from assms have "\<not> real_of_int (var_a (init_state out0)) < n"
    by (simp add: init_state_def)
  then have "fib_loop lmt n (init_state out0) = Some (Returned (init_state out0))"
    by (rule fib_loop_stop)
  then show ?thesis
    by (simp add: fibonacci_def init_state_def)
qed

theorem fibonacci_nonpositive_bound_witness:
  "(-3 :: real) \<le> 0 \<and>
   fibonacci 4300 (-3) [] =
     Some (Returned \<lparr>var_a = 0, var_b = 1, emitted = [], stdout = ''\<newline>''\<rparr>)"
proof -
  have h: "(-3 :: real) \<le> 0" by simp
  show ?thesis using h fibonacci_nonpositive_bound [OF h, of 4300 "[]"] by simp
qed

subsection \<open>C4: the bound 1\<close>

text \<open>
  C4, as the code has it. Under every digit limit \<open>fibonacci(1)\<close> returns, emits the
  single term 0 and appends three characters to standard output: the digit 0, a space,
  and a newline.
\<close>

theorem fibonacci_1_output:
  "fibonacci lmt 1 out0 =
     Some (Returned \<lparr>var_a = 1, var_b = 1, emitted = [0], stdout = out0 @ ''0 \<newline>''\<rparr>)"
proof -
  have w: "\<forall>t\<in>set (emitted \<lparr>var_a = 1, var_b = 1, emitted = [0],
      stdout = ''0 \<newline>''\<rparr>). within_limit lmt t"
    by (auto intro: within_limit_digit)
  from fibonacci_any_limit [OF fibonacci_1_unlimited w, of out0] show ?thesis by simp
qed

text \<open>
  C4 as it is stated fails: the output of \<open>fibonacci(1)\<close> is not the two characters
  0 and newline.
\<close>

theorem fibonacci_1_counterexample:
  "map_option (\<lambda>r. stdout (final r)) (fibonacci 4300 1 []) \<noteq> Some ''0\<newline>''"
  by (simp add: fibonacci_1_default)

subsection \<open>C5: the emitted terms are Fibonacci numbers below the bound\<close>

text \<open>
  C5, as the code has it. For every finite bound \<open>n\<close> and every digit limit the call
  ends, and there is an index \<open>k\<close> such that the emitted terms are
  \<open>fib_seq 0, \<dots>, fib_seq (k - 1)\<close>, in this order. Every emitted term is below \<open>n\<close>. The
  first emitted term is 0, and every later one is the sum of the two terms before it,
  where the term before the initial 0 is taken to be 1, the value needed to produce the
  second term 1. When the call returns, a term of the Fibonacci sequence is below \<open>n\<close>
  exactly when its index is less than \<open>k\<close>: the emitted sequence is the prefix made of
  all terms strictly below \<open>n\<close>. The call returns whenever the limit is off or
  \<open>n \<le> 10 ^ lmt\<close>. Otherwise \<open>print\<close> may raise \<open>ValueError\<close>; then the limit is on, the
  emitted terms are exactly the Fibonacci terms below \<open>10 ^ lmt\<close> (those of at most
  \<open>lmt\<close> digits), and the term at which \<open>print\<close> raised is below \<open>n\<close> and was not emitted.
\<close>

theorem fibonacci_emits_fib_prefix:
  "\<exists>r k. fibonacci lmt n out0 = Some r \<and>
     emitted (final r) = map fib_seq [0..<k] \<and>
     (\<forall>t \<in> set (emitted (final r)). real_of_int t < n) \<and>
     (\<forall>i < length (emitted (final r)). emitted (final r) ! i =
         (if i = 0 then 0
          else (1 # emitted (final r)) ! i + (1 # emitted (final r)) ! (i - 1))) \<and>
     (if returned r then \<forall>i. real_of_int (fib_seq i) < n \<longleftrightarrow> i < k
      else r = Raised ValueError (final r) \<and> 0 < lmt \<and> real_of_int (fib_seq k) < n \<and>
           (\<forall>i. real_of_int (fib_seq i) < 10 ^ lmt \<longleftrightarrow> i < k)) \<and>
     (lmt = 0 \<or> n \<le> 10 ^ lmt \<longrightarrow> returned r)"
proof -
  from fibonacci_run [of n lmt out0] obtain k r where
    k: "ends_at lmt n k" and r: "fibonacci lmt n out0 = Some r" and
    ret: "returned r = (\<not> real_of_int (fib_seq k) < n)" and
    rs: "returned r \<or> r = Raised ValueError (final r)" and
    e: "emitted (final r) = map fib_seq [0..<k]"
    by blast
  have 3: "\<forall>t \<in> set (emitted (final r)). real_of_int t < n"
    using k by (auto simp: e ends_at_def)
  have 4: "\<forall>i < length (emitted (final r)). emitted (final r) ! i =
         (if i = 0 then 0
          else (1 # emitted (final r)) ! i + (1 # emitted (final r)) ! (i - 1))"
    unfolding e using fib_seq_prefix_recurrence [of _ k] by simp
  have 5: "if returned r then \<forall>i. real_of_int (fib_seq i) < n \<longleftrightarrow> i < k
      else r = Raised ValueError (final r) \<and> 0 < lmt \<and> real_of_int (fib_seq k) < n \<and>
           (\<forall>i. real_of_int (fib_seq i) < 10 ^ lmt \<longleftrightarrow> i < k)"
  proof (cases "returned r")
    case True
    with ret have "\<not> real_of_int (fib_seq k) < n" by simp
    from ends_at_below_iff [OF k this] True show ?thesis by simp
  next
    case False
    with ret have below: "real_of_int (fib_seq k) < n" by simp
    with k have beyond: "\<not> within_limit lmt (fib_seq k)" by (simp add: ends_at_def)
    then have pos: "0 < lmt" by (auto simp: within_limit_iff)
    have "real_of_int (fib_seq i) < 10 ^ lmt \<longleftrightarrow> i < k" for i
      using ends_at_within_iff [OF k beyond, of i] pos by (simp add: within_limit_real)
    with False rs below pos show ?thesis by simp
  qed
  have 6: "lmt = 0 \<or> n \<le> 10 ^ lmt \<longrightarrow> returned r"
    using ends_at_returns [OF k] ret by blast
  from r e 3 4 5 6 show ?thesis by blast
qed

text \<open>
  At the bound 100 and the default limit: the call returns, the twelve emitted terms are
  the Fibonacci numbers of index 0 to 11, the term of index 11 is below 100 and the
  term of index 12 is not, the emitted term 89 is below 100, and the emitted term of
  index 11 is the sum of the two before it.
\<close>

theorem fibonacci_emits_fib_prefix_witness:
  "(100::real) \<le> 10 ^ 4300 \<and>
   fibonacci 4300 100 [] =
     Some (Returned \<lparr>var_a = 144, var_b = 233,
       emitted = [0, 1, 1, 2, 3, 5, 8, 13, 21, 34, 55, 89],
       stdout = ''0 1 1 2 3 5 8 13 21 34 55 89 \<newline>''\<rparr>) \<and>
   [0, 1, 1, 2, 3, 5, 8, 13, 21, 34, 55, 89] = map fib_seq [0..<12] \<and>
   real_of_int (fib_seq 11) < 100 \<and> \<not> real_of_int (fib_seq 12) < 100 \<and>
   (89 :: int) \<in> set [0, 1, 1, 2, 3, 5, 8, 13, 21, 34, 55, 89] \<and> real_of_int 89 < 100 \<and>
   (11 :: nat) < length [0 :: int, 1, 1, 2, 3, 5, 8, 13, 21, 34, 55, 89] \<and>
   [0 :: int, 1, 1, 2, 3, 5, 8, 13, 21, 34, 55, 89] ! 11 = 55 + 34"
proof -
  have h: "(100::real) \<le> 10 ^ 4300" by (rule hundred_le_power_ten) simp
  from fibonacci_emits_fib_prefix [of 4300 100 "[]"] obtain r k where
    r: "fibonacci 4300 100 [] = Some r" and
    e: "emitted (final r) = map fib_seq [0..<k]" and
    b: "\<forall>t \<in> set (emitted (final r)). real_of_int t < 100" and
    rc: "\<forall>i < length (emitted (final r)). emitted (final r) ! i =
         (if i = 0 then 0
          else (1 # emitted (final r)) ! i + (1 # emitted (final r)) ! (i - 1))" and
    c: "if returned r then \<forall>i. real_of_int (fib_seq i) < 100 \<longleftrightarrow> i < k
      else r = Raised ValueError (final r) \<and> 0 < (4300::nat) \<and> real_of_int (fib_seq k) < 100 \<and>
           (\<forall>i. real_of_int (fib_seq i) < 10 ^ 4300 \<longleftrightarrow> i < k)" and
    t: "(4300::nat) = 0 \<or> (100::real) \<le> 10 ^ 4300 \<longrightarrow> returned r"
    by blast
  from r have r_eq: "r = Returned \<lparr>var_a = 144, var_b = 233,
      emitted = [0, 1, 1, 2, 3, 5, 8, 13, 21, 34, 55, 89],
      stdout = ''0 1 1 2 3 5 8 13 21 34 55 89 \<newline>''\<rparr>"
    by (simp only: fibonacci_100_default option.inject)
  from t h have ret: "returned r" by blast
  from c ret have k: "\<forall>i. real_of_int (fib_seq i) < 100 \<longleftrightarrow> i < k" by (simp only: if_P simp_thms)
  from e have "length (emitted (final r)) = k" by simp
  with r_eq have k12: "k = 12" by simp
  from e r_eq k12 have m: "[0, 1, 1, 2, 3, 5, 8, 13, 21, 34, 55, 89] = map fib_seq [0..<12]"
    by simp
  from k k12 have cc: "real_of_int (fib_seq 11) < 100 \<and> \<not> real_of_int (fib_seq 12) < 100"
    by simp
  from b r_eq have b89: "real_of_int 89 < 100" by simp
  from rc r_eq have r11: "[0 :: int, 1, 1, 2, 3, 5, 8, 13, 21, 34, 55, 89] ! 11 = 55 + 34"
    by simp
  have rest: "(89 :: int) \<in> set [0, 1, 1, 2, 3, 5, 8, 13, 21, 34, 55, 89] \<and>
      (11 :: nat) < length [0 :: int, 1, 1, 2, 3, 5, 8, 13, 21, 34, 55, 89]"
    by simp
  from h fibonacci_100_default m cc b89 r11 rest show ?thesis by blast
qed

text \<open>
  C5 as it is stated fails: at the default limit 4300 and the finite bound
  \<open>10 ^ 4400\<close> the call does not return, and the Fibonacci term whose index is the
  number of emitted terms is below the bound and is not among the emitted terms.
\<close>

theorem fibonacci_digit_limit_counterexample:
  "map_option returned (fibonacci 4300 (10 ^ 4400) []) = Some False \<and>
   map_option (\<lambda>r. real_of_int (fib_seq (length (emitted (final r)))) < 10 ^ 4400)
     (fibonacci 4300 (10 ^ 4400) []) = Some True \<and>
   map_option (\<lambda>r. fib_seq (length (emitted (final r))) \<in> set (emitted (final r)))
     (fibonacci 4300 (10 ^ 4400) []) = Some False"
proof -
  have pos: "0 < (4300::nat)" by simp
  have big: "2 * (10::real) ^ 4300 \<le> 10 ^ 4400" by (rule double_power_ten_le) simp
  from fibonacci_beyond_limit_index [OF pos big, of "[]"] obtain s where
    r: "fibonacci 4300 (10 ^ 4400) [] = Some (Raised ValueError s)" and
    b: "real_of_int (fib_seq (length (emitted s))) < 10 ^ 4400" and
    m: "fib_seq (length (emitted s)) \<notin> set (emitted s)"
    by blast
  have 1: "map_option returned (Some (Raised ValueError s)) = Some False"
    by simp
  have 2: "map_option (\<lambda>r. real_of_int (fib_seq (length (emitted (final r)))) < 10 ^ 4400)
      (Some (Raised ValueError s)) = Some True"
    using b by (simp only: option.map final.simps simp_thms)
  have 3: "map_option (\<lambda>r. fib_seq (length (emitted (final r))) \<in> set (emitted (final r)))
      (Some (Raised ValueError s)) = Some False"
    using m by simp
  from 1 2 3 show ?thesis unfolding r by blast
qed

subsection \<open>C6: the invariant of the accumulator pair\<close>

text \<open>
  C6, as the code has it. The pair starts as \<open>(0, 1)\<close>, which satisfies
  \<open>accumulator_inv\<close>. An execution of the loop body that does not raise makes the update
  \<open>a, b = b, a + b\<close> and preserves \<open>accumulator_inv\<close>; so the invariant holds in every state
  in which the loop condition is evaluated. There \<open>a\<close> is the term to be emitted next
  (the initial 0 before any emission), \<open>b\<close> is its successor in the sequence, and \<open>b\<close> is
  \<open>a\<close> plus the term before \<open>a\<close>. After an execution of the body the value last emitted
  is the value \<open>a\<close> had when the body was entered.
\<close>

theorem accumulator_invariant:
  "var_a (init_state out0) = 0 \<and> var_b (init_state out0) = 1 \<and>
   accumulator_inv (init_state out0) \<and>
   (loop_body lmt s = Inr s' \<longrightarrow>
      var_a s' = var_b s \<and> var_b s' = var_a s + var_b s \<and> last_emitted s' = var_a s \<and>
      (accumulator_inv s \<longrightarrow> accumulator_inv s')) \<and>
   (at_loop_head lmt n out0 s \<longrightarrow> accumulator_inv s)"
proof -
  have 1: "var_a (init_state out0) = 0 \<and> var_b (init_state out0) = 1"
    by (simp add: init_state_def)
  have 2: "var_a s' = var_b s \<and> var_b s' = var_a s + var_b s \<and> last_emitted s' = var_a s"
    if "loop_body lmt s = Inr s'"
    unfolding loop_body_Inr [OF that] by (simp add: last_emitted_def)
  from 1 2 accumulator_inv_init accumulator_inv_body at_loop_head_inv show ?thesis
    by blast
qed

theorem accumulator_invariant_witness:
  "loop_body 4300 (init_state []) =
     Inr \<lparr>var_a = 1, var_b = 1, emitted = [0], stdout = ''0 ''\<rparr> \<and>
   at_loop_head 4300 100 [] \<lparr>var_a = 1, var_b = 1, emitted = [0], stdout = ''0 ''\<rparr> \<and>
   accumulator_inv (init_state []) \<and>
   accumulator_inv \<lparr>var_a = 1, var_b = 1, emitted = [0], stdout = ''0 ''\<rparr> \<and>
   last_emitted \<lparr>var_a = 1, var_b = 1, emitted = [0], stdout = ''0 ''\<rparr>
     = var_a (init_state [])"
proof -
  let ?s1 = "\<lparr>var_a = 1, var_b = 1, emitted = [0], stdout = ''0 ''\<rparr>"
  have b: "loop_body 4300 (init_state []) = Inr ?s1" by (rule loop_body_init_default)
  have h: "at_loop_head 4300 100 [] ?s1"
    by (rule at_loop_head.iterate [OF at_loop_head.enter _ b]) (simp add: init_state_def)
  from accumulator_invariant [of "[]" 4300 "init_state []" ?s1 100] b
  have 1: "accumulator_inv (init_state [])" and 2: "accumulator_inv ?s1"
    and 3: "last_emitted ?s1 = var_a (init_state [])"
    by blast+
  from accumulator_invariant [of "[]" 4300 ?s1 "init_state []" 100] h
  have 4: "accumulator_inv ?s1" by blast
  from b h 1 4 3 show ?thesis by blast
qed

text \<open>
  C6 as it is stated fails: in \<open>fibonacci(100)\<close>, when the loop condition is evaluated
  for the second time, one term has been emitted, the value last emitted is 0, and \<open>a\<close>
  is 1.
\<close>

theorem accumulator_last_emitted_counterexample:
  "at_loop_head 4300 100 [] \<lparr>var_a = 1, var_b = 1, emitted = [0], stdout = ''0 ''\<rparr> \<and>
   last_emitted \<lparr>var_a = 1, var_b = 1, emitted = [0], stdout = ''0 ''\<rparr> = 0 \<and>
   var_a \<lparr>var_a = 1, var_b = 1, emitted = [0], stdout = ''0 ''\<rparr> \<noteq>
     last_emitted \<lparr>var_a = 1, var_b = 1, emitted = [0], stdout = ''0 ''\<rparr>"
proof -
  have h: "at_loop_head 4300 100 [] \<lparr>var_a = 1, var_b = 1, emitted = [0], stdout = ''0 ''\<rparr>"
    by (rule at_loop_head.iterate [OF at_loop_head.enter _ loop_body_init_default])
      (simp add: init_state_def)
  then show ?thesis by (simp add: last_emitted_def)
qed

subsection \<open>C7: a larger bound extends the sequence\<close>

text \<open>
  C7. For finite bounds \<open>n1 \<le> n2\<close>, under the same digit limit, both calls end, and the
  list of terms emitted for \<open>n1\<close> is a prefix of the list emitted for \<open>n2\<close>, whatever
  standard output held before either call and whether the calls return or are left by
  an error.
\<close>

theorem fibonacci_prefix_monotone:
  assumes "n1 \<le> n2"
  shows "\<exists>r1 r2. fibonacci lmt n1 out1 = Some r1 \<and> fibonacci lmt n2 out2 = Some r2 \<and>
           prefix (emitted (final r1)) (emitted (final r2))"
proof -
  from fibonacci_run [of n1 lmt out1] obtain k1 r1 where
    k1: "ends_at lmt n1 k1" and r1: "fibonacci lmt n1 out1 = Some r1" and
    e1: "emitted (final r1) = map fib_seq [0..<k1]" by blast
  from fibonacci_run [of n2 lmt out2] obtain k2 r2 where
    k2: "ends_at lmt n2 k2" and r2: "fibonacci lmt n2 out2 = Some r2" and
    e2: "emitted (final r2) = map fib_seq [0..<k2]" by blast
  from assms k1 k2 have "k1 \<le> k2" by (rule ends_at_mono)
  then have "prefix (emitted (final r1)) (emitted (final r2))"
    unfolding e1 e2 by (rule prefix_fib_seq)
  with r1 r2 show ?thesis by blast
qed

theorem fibonacci_prefix_monotone_witness:
  "(2 :: real) \<le> 100 \<and>
   fibonacci 4300 2 [] =
     Some (Returned \<lparr>var_a = 2, var_b = 3, emitted = [0, 1, 1], stdout = ''0 1 1 \<newline>''\<rparr>) \<and>
   fibonacci 4300 100 [] =
     Some (Returned \<lparr>var_a = 144, var_b = 233,
       emitted = [0, 1, 1, 2, 3, 5, 8, 13, 21, 34, 55, 89],
       stdout = ''0 1 1 2 3 5 8 13 21 34 55 89 \<newline>''\<rparr>) \<and>
   prefix [0 :: int, 1, 1] [0, 1, 1, 2, 3, 5, 8, 13, 21, 34, 55, 89]"
proof -
  have h: "(2 :: real) \<le> 100" by simp
  from fibonacci_prefix_monotone [OF h, of 4300 "[]" "[]"] h show ?thesis
    by (simp add: fibonacci_2_default fibonacci_100_default)
qed

subsection \<open>C8: two calls with the same bound\<close>

text \<open>
  C8. Two calls one after the other with the same finite bound, under the same digit
  limit, both end, in the same way (both return or both raise), and write the same text
  \<open>w\<close>: after the first call standard output is \<open>out0 @ w\<close>, after the second it is
  \<open>out0 @ w @ w\<close>. Both calls emit the same terms and end with the same \<open>a\<close> and \<open>b\<close>, and
  \<open>w\<close> is the text a call on an empty standard output writes: nothing of the first call
  reaches the second, which starts from \<open>(0, 1)\<close> again.
\<close>

theorem fibonacci_twice_same_output:
  "\<exists>w r0 r1 r2. fibonacci_twice lmt n out0 = Some (r1, r2) \<and>
     stdout (final r1) = out0 @ w \<and> stdout (final r2) = out0 @ w @ w \<and>
     returned r2 = returned r1 \<and>
     emitted (final r2) = emitted (final r1) \<and>
     var_a (final r2) = var_a (final r1) \<and> var_b (final r2) = var_b (final r1) \<and>
     fibonacci lmt n [] = Some r0 \<and> stdout (final r0) = w \<and> returned r0 = returned r1 \<and>
     emitted (final r0) = emitted (final r1)"
proof -
  from ends_at_exists [of n lmt] obtain k where k: "ends_at lmt n k" by blast
  show ?thesis
  proof (cases "real_of_int (fib_seq k) < n")
    case True
    then show ?thesis
      unfolding fibonacci_twice_def fibonacci_outcome [OF k]
      by (simp add: state_after_def)
  next
    case False
    then show ?thesis
      unfolding fibonacci_twice_def fibonacci_outcome [OF k]
      by (simp add: state_after_def)
  qed
qed

theorem fibonacci_twice_same_output_witness:
  "fibonacci_twice 4300 100 ''> '' =
     Some (Returned \<lparr>var_a = 144, var_b = 233,
             emitted = [0, 1, 1, 2, 3, 5, 8, 13, 21, 34, 55, 89],
             stdout = ''> 0 1 1 2 3 5 8 13 21 34 55 89 \<newline>''\<rparr>,
           Returned \<lparr>var_a = 144, var_b = 233,
             emitted = [0, 1, 1, 2, 3, 5, 8, 13, 21, 34, 55, 89],
             stdout = ''> 0 1 1 2 3 5 8 13 21 34 55 89 \<newline>0 1 1 2 3 5 8 13 21 34 55 89 \<newline>''\<rparr>)"
proof -
  from fibonacci_twice_same_output [of 4300 100 "''> ''"] obtain w r0 r1 r2 where
    t: "fibonacci_twice 4300 100 ''> '' = Some (r1, r2)" and
    o1: "stdout (final r1) = ''> '' @ w" and o2: "stdout (final r2) = ''> '' @ w @ w" and
    rr: "returned r2 = returned r1" and
    e: "emitted (final r2) = emitted (final r1)" and
    a: "var_a (final r2) = var_a (final r1)" and b: "var_b (final r2) = var_b (final r1)" and
    r0: "fibonacci 4300 100 [] = Some r0" and w: "stdout (final r0) = w" and
    r01: "returned r0 = returned r1" and e0: "emitted (final r0) = emitted (final r1)"
    by blast
  from r0 have r0_eq: "r0 = Returned \<lparr>var_a = 144, var_b = 233,
      emitted = [0, 1, 1, 2, 3, 5, 8, 13, 21, 34, 55, 89],
      stdout = ''0 1 1 2 3 5 8 13 21 34 55 89 \<newline>''\<rparr>"
    by (simp only: fibonacci_100_default option.inject)
  from t have r1: "fibonacci 4300 100 ''> '' = Some r1"
    by (auto simp: fibonacci_twice_def split: option.splits)
  have r1_eq: "r1 = Returned \<lparr>var_a = 144, var_b = 233,
      emitted = [0, 1, 1, 2, 3, 5, 8, 13, 21, 34, 55, 89],
      stdout = ''> 0 1 1 2 3 5 8 13 21 34 55 89 \<newline>''\<rparr>"
    using r1 by (simp only: fibonacci_100_prompt option.inject)
  from rr r1_eq obtain s2 where r2_eq: "r2 = Returned s2" by (cases r2) simp_all
  from o2 e a b w r0_eq r1_eq r2_eq have "s2 = \<lparr>var_a = 144, var_b = 233,
      emitted = [0, 1, 1, 2, 3, 5, 8, 13, 21, 34, 55, 89],
      stdout = ''> 0 1 1 2 3 5 8 13 21 34 55 89 \<newline>0 1 1 2 3 5 8 13 21 34 55 89 \<newline>''\<rparr>"
    by (cases s2) auto
  with t r1_eq r2_eq show ?thesis by simp
qed

subsection \<open>C9: the loop terminates\<close>



subsection \<open>C10: the emitted terms are sorted and not negative\<close>

text \<open>
  C10. For every finite bound \<open>n\<close> and every digit limit the call ends, the list of
  emitted terms is non-decreasing (each term is greater than or equal to the one before
  it), and every emitted term is greater than or equal to 0.
\<close>

theorem fibonacci_emitted_sorted_nonneg:
  "\<exists>r. fibonacci lmt n out0 = Some r \<and> sorted (emitted (final r)) \<and>
     (\<forall>t \<in> set (emitted (final r)). 0 \<le> t)"
proof -
  from fibonacci_run [of n lmt out0] obtain k r where
    r: "fibonacci lmt n out0 = Some r" and
    e: "emitted (final r) = map fib_seq [0..<k]" by blast
  have "sorted (emitted (final r))" unfolding e by (rule sorted_fib_seq)
  moreover have "\<forall>t \<in> set (emitted (final r)). 0 \<le> t"
    unfolding e by (simp add: fib_seq_nonneg)
  ultimately show ?thesis using r by blast
qed

theorem fibonacci_emitted_sorted_nonneg_witness:
  "fibonacci 4300 100 [] =
     Some (Returned \<lparr>var_a = 144, var_b = 233,
       emitted = [0, 1, 1, 2, 3, 5, 8, 13, 21, 34, 55, 89],
       stdout = ''0 1 1 2 3 5 8 13 21 34 55 89 \<newline>''\<rparr>) \<and>
   sorted [0 :: int, 1, 1, 2, 3, 5, 8, 13, 21, 34, 55, 89] \<and>
   (34 :: int) \<in> set [0, 1, 1, 2, 3, 5, 8, 13, 21, 34, 55, 89] \<and> (0 :: int) \<le> 34"
  using fibonacci_emitted_sorted_nonneg [of 4300 100 "[]"] by (simp add: fibonacci_100_default)

end
